theory Spec2Isabelle
  imports Main "HOL-Library.Sublist"
begin

section \<open>Wall-clock time\<close>

text \<open>
  Every timestamp of the bot is a Python \<^verbatim>\<open>datetime\<close> in the single zone
  \<^verbatim>\<open>Asia/Almaty\<close>: either aware with that one \<^verbatim>\<open>tzinfo\<close>, or naive after
  \<^verbatim>\<open>replace(tzinfo=None)\<close>. Python compares two such values by their wall-clock
  fields and adds a \<^verbatim>\<open>timedelta\<close> on the wall-clock fields, so a timestamp is modelled
  by the number of microseconds of wall-clock time since the start of day 0 of the proleptic
  Gregorian calendar (day 1 is 0001-01-01, as in \<^verbatim>\<open>date.toordinal\<close>).
  The year bound 9999 of \<^verbatim>\<open>datetime\<close> is not modelled.
\<close>

type_synonym datetime = int

definition is_leap :: "int \<Rightarrow> bool" where
  "is_leap y = (y mod 4 = 0 \<and> (y mod 100 \<noteq> 0 \<or> y mod 400 = 0))"

definition days_before_year :: "int \<Rightarrow> int" where
  "days_before_year year =
     (let y = year - 1 in y * 365 + y div 4 - y div 100 + y div 400)"

definition days_before_month :: "int \<Rightarrow> int \<Rightarrow> int" where
  "days_before_month year month =
     [0, 31, 59, 90, 120, 151, 181, 212, 243, 273, 304, 334] ! nat (month - 1)
       + (if month > 2 \<and> is_leap year then 1 else 0)"

definition ymd2ord :: "int \<Rightarrow> int \<Rightarrow> int \<Rightarrow> int" where
  "ymd2ord year month day = days_before_year year + days_before_month year month + day"

text \<open>\<^verbatim>\<open>datetime(year, month, day, hour, minute)\<close>, for a valid calendar date.\<close>

definition mk_datetime :: "int \<Rightarrow> int \<Rightarrow> int \<Rightarrow> int \<Rightarrow> int \<Rightarrow> datetime" where
  "mk_datetime year month day hour minute =
     (((ymd2ord year month day * 24 + hour) * 60 + minute) * 60) * 1000000"

text \<open>\<^verbatim>\<open>timedelta(days=..., minutes=...)\<close> in microseconds.\<close>

definition timedelta :: "int \<Rightarrow> int \<Rightarrow> int" where
  "timedelta days minutes = (days * 86400 + minutes * 60) * 1000000"


section \<open>Stage resolver (app/handlers/common.py)\<close>

text \<open>
  \<^verbatim>\<open>get_current_stage\<close> reads the clock once and runs an if/elif chain over three
  literal windows. When no branch matches the Python function falls off its end and returns
  \<^verbatim>\<open>None\<close>. The clock reading is the argument \<open>now\<close>.
\<close>

definition get_current_stage :: "datetime \<Rightarrow> string option" where
  "get_current_stage now =
     (if mk_datetime 2025 10 29 0 0 \<le> now \<and> now < mk_datetime 2025 11 7 0 0
        then Some ''stage1''
      else if mk_datetime 2025 11 7 0 0 \<le> now \<and> now < mk_datetime 2025 11 13 0 0
        then Some ''stage2''
      else if mk_datetime 2025 11 14 0 0 \<le> now \<and> now < mk_datetime 2025 11 18 0 0
        then Some ''stage3''
      else None)"

text \<open>The three windows of the chain, in the order in which the chain tests them.\<close>

definition stage_windows :: "(string \<times> datetime \<times> datetime) list" where
  "stage_windows =
     [(''stage1'', mk_datetime 2025 10 29 0 0, mk_datetime 2025 11 7 0 0),
      (''stage2'', mk_datetime 2025 11 7 0 0, mk_datetime 2025 11 13 0 0),
      (''stage3'', mk_datetime 2025 11 14 0 0, mk_datetime 2025 11 18 0 0)]"

definition in_window :: "datetime \<Rightarrow> string \<times> datetime \<times> datetime \<Rightarrow> bool" where
  "in_window t w = (fst (snd w) \<le> t \<and> t < snd (snd w))"


section \<open>Tables (app/database/models.py)\<close>

text \<open>
  One record per mapped class, with the columns that the modelled functions read or write.
  A nullable column is an \<open>option\<close>. The \<^verbatim>\<open>status\<close> column of a broadcast is
  kept nullable because the dispatcher's query tests \<^verbatim>\<open>status IS NULL\<close>.
  A table is the list of its rows in the order in which the store scans them; the two
  sequences hand out the autoincrement keys.
\<close>

record user_row =
  u_id :: nat
  u_user_id :: int
  u_username :: "string option"
  u_first_name :: "string option"
  u_last_name :: "string option"
  u_phone :: "string option"
  u_lead_source_id :: "nat option"
  u_registered_at :: datetime

record ms_row =
  ms_id :: nat
  ms_user_id :: nat
  ms_message_text :: string
  ms_send_time :: datetime
  ms_sent :: bool

record broadcast_row =
  b_id :: nat
  b_title :: string
  b_content :: string
  b_file_id :: "string option"
  b_file_type :: "string option"
  b_scheduled_at :: "datetime option"
  b_is_sent :: bool
  b_status :: "string option"
  b_sent_count :: int
  b_target_lead_id :: "nat option"
  b_updated :: datetime

record db =
  lead_source :: "nat list"
  users :: "user_row list"
  message_schedule :: "ms_row list"
  broadcast :: "broadcast_row list"
  user_seq :: nat
  ms_seq :: nat

text \<open>
  A SQLAlchemy session: statements act on the working copy, \<^verbatim>\<open>commit\<close> makes the
  working copy durable, \<^verbatim>\<open>rollback\<close> discards what was not committed, and closing
  the session leaves the committed state behind.
\<close>

record session =
  committed :: db
  working :: db

definition open_session :: "db \<Rightarrow> session" where
  "open_session d = \<lparr>committed = d, working = d\<rparr>"

definition execute :: "(db \<Rightarrow> db) \<Rightarrow> session \<Rightarrow> session" where
  "execute f s = s\<lparr>working := f (working s)\<rparr>"

definition commit :: "session \<Rightarrow> session" where
  "commit s = s\<lparr>committed := working s\<rparr>"

definition rollback :: "session \<Rightarrow> session" where
  "rollback s = s\<lparr>working := committed s\<rparr>"

definition close_session :: "session \<Rightarrow> db" where
  "close_session s = committed s"


section \<open>Transport and effects\<close>

text \<open>
  The calls made on the aiogram \<^verbatim>\<open>Bot\<close>, with the arguments that vary. A call either
  returns or raises an \<^verbatim>\<open>Exception\<close> whose \<^verbatim>\<open>str\<close> is recorded; the transport's
  answer is taken as a function of the call.
\<close>

datatype send_call =
    Send_message int string
  | Send_photo int "string option"
  | Send_document int "string option" "string option"
  | Send_video int "string option"

datatype outcome = Delivered | Raised string

type_synonym bot = "send_call \<Rightarrow> outcome"

datatype log_level = Log_info | Log_warning | Log_error

datatype statement =
    Mark_sent nat
  | Set_sending nat
  | Finalize nat int datetime

text \<open>
  What a run does, in order: transport calls with their outcome, raw SQL updates, commits
  (with the state that became durable) and log lines.
\<close>

datatype event =
    Bot send_call outcome
  | Sql statement
  | Commit db
  | Log log_level

text \<open>\<^verbatim>\<open>"blocked" in str(e).lower()\<close>, on byte strings with ASCII letters folded.\<close>

definition lower_char :: "char \<Rightarrow> char" where
  "lower_char c =
     (let n = (of_char c :: nat) in if 65 \<le> n \<and> n \<le> 90 then char_of (n + 32) else c)"

definition lower :: "string \<Rightarrow> string" where
  "lower s = map lower_char s"

fun starts_with :: "string \<Rightarrow> string \<Rightarrow> bool" where
  "starts_with [] s = True"
| "starts_with (x # xs) [] = False"
| "starts_with (x # xs) (y # ys) = (x = y \<and> starts_with xs ys)"

fun contains :: "string \<Rightarrow> string \<Rightarrow> bool" where
  "contains needle [] = starts_with needle []"
| "contains needle (c # cs) = (starts_with needle (c # cs) \<or> contains needle cs)"

definition is_blocked :: "string \<Rightarrow> bool" where
  "is_blocked e = contains ''blocked'' (lower e)"

text \<open>Python truthiness of a nullable string column: neither \<^verbatim>\<open>None\<close> nor empty.\<close>

definition truthy :: "string option \<Rightarrow> bool" where
  "truthy x = (case x of None \<Rightarrow> False | Some s \<Rightarrow> s \<noteq> [])"


section \<open>Dispatcher sweep (app/database/crud_admin.py, send_scheduled_broadcasts)\<close>

text \<open>
  The personal query joins each due, unsent schedule row with the user row it references
  and returns \<^verbatim>\<open>(ms.id, ms.message_text, u.user_id)\<close>. It has no \<^verbatim>\<open>ORDER BY\<close>:
  rows come in scan order.
\<close>

definition query_personal :: "datetime \<Rightarrow> db \<Rightarrow> (nat \<times> string \<times> int) list" where
  "query_personal now d =
     concat (map (\<lambda>m. map (\<lambda>u. (ms_id m, ms_message_text m, u_user_id u))
                         (filter (\<lambda>u. u_id u = ms_user_id m) (users d)))
                 (filter (\<lambda>m. ms_send_time m \<le> now \<and> \<not> ms_sent m) (message_schedule d)))"

definition mark_sent :: "nat \<Rightarrow> db \<Rightarrow> db" where
  "mark_sent i d =
     d\<lparr>message_schedule :=
         map (\<lambda>m. if ms_id m = i then m\<lparr>ms_sent := True\<rparr> else m) (message_schedule d)\<rparr>"

definition personal_log :: "outcome \<Rightarrow> log_level" where
  "personal_log out =
     (case out of
        Delivered \<Rightarrow> Log_info
      | Raised e \<Rightarrow> if is_blocked e then Log_warning else Log_error)"

text \<open>The loop over the fetched rows: one send, one log line, one update per row.\<close>

fun personal_sweep :: "bot \<Rightarrow> (nat \<times> string \<times> int) list \<Rightarrow> session \<Rightarrow> session \<times> event list" where
  "personal_sweep tbot [] s = (s, [])"
| "personal_sweep tbot ((rid, txt, tg) # rows) s =
     (let out = tbot (Send_message tg txt);
          s' = execute (mark_sent rid) s;
          (s'', evs) = personal_sweep tbot rows s'
      in (s'', [Bot (Send_message tg txt) out, Log (personal_log out), Sql (Mark_sent rid)] @ evs))"

text \<open>
  The broadcast query: due, not sent, status null or pending; \<^verbatim>\<open>LIMIT 1\<close> with no
  \<^verbatim>\<open>ORDER BY\<close>, so the first such row in scan order. A null \<^verbatim>\<open>scheduled_at\<close>
  fails the comparison.
\<close>

definition broadcast_due :: "datetime \<Rightarrow> broadcast_row \<Rightarrow> bool" where
  "broadcast_due now b =
     ((case b_scheduled_at b of None \<Rightarrow> False | Some t \<Rightarrow> t \<le> now)
      \<and> (b_status b = None \<or> b_status b = Some ''pending'')
      \<and> \<not> b_is_sent b)"

definition query_broadcast :: "datetime \<Rightarrow> db \<Rightarrow> broadcast_row option" where
  "query_broadcast now d = find (broadcast_due now) (broadcast d)"

definition set_sending :: "nat \<Rightarrow> db \<Rightarrow> db" where
  "set_sending i d =
     d\<lparr>broadcast :=
         map (\<lambda>b. if b_id b = i then b\<lparr>b_status := Some ''sending''\<rparr> else b) (broadcast d)\<rparr>"

definition finalize :: "nat \<Rightarrow> int \<Rightarrow> datetime \<Rightarrow> db \<Rightarrow> db" where
  "finalize i tot now d =
     d\<lparr>broadcast :=
         map (\<lambda>b. if b_id b = i
                   then b\<lparr>b_is_sent := True, b_status := Some ''sent'',
                          b_sent_count := tot, b_updated := now\<rparr>
                   else b) (broadcast d)\<rparr>"

text \<open>\<^verbatim>\<open>SELECT user_id FROM "user" WHERE user_id IS NOT NULL\<close>; the column is not nullable.\<close>

definition users_query :: "db \<Rightarrow> int list" where
  "users_query d = map u_user_id (users d)"

definition broadcast_call :: "broadcast_row \<Rightarrow> int \<Rightarrow> send_call" where
  "broadcast_call b uid =
     (if truthy (b_file_id b) \<and> truthy (b_file_type b)
        then Send_document uid (b_file_id b) (Some (b_content b))
      else Send_message uid (if b_content b \<noteq> [] then b_content b else b_title b))"

text \<open>
  The loop over the recipients: the counter grows only after a send that returned; an
  exception is logged unless its text contains "blocked".
\<close>

fun broadcast_loop :: "bot \<Rightarrow> broadcast_row \<Rightarrow> int list \<Rightarrow> int \<Rightarrow> int \<times> event list" where
  "broadcast_loop tbot b [] tot = (tot, [])"
| "broadcast_loop tbot b (uid # uids) tot =
     (case tbot (broadcast_call b uid) of
        Delivered \<Rightarrow>
          (let (t, evs) = broadcast_loop tbot b uids (tot + 1)
           in (t, Bot (broadcast_call b uid) Delivered # evs))
      | Raised e \<Rightarrow>
          (let (t, evs) = broadcast_loop tbot b uids tot
           in (t, Bot (broadcast_call b uid) (Raised e)
                    # (if \<not> is_blocked e then [Log Log_error] else []) @ evs)))"

text \<open>
  One tick on a fresh session over the durable state \<open>d\<close>, at clock reading \<open>now\<close>. The
  result is the durable state left when the session closes, and the run's events.
\<close>

definition send_scheduled_broadcasts :: "bot \<Rightarrow> datetime \<Rightarrow> db \<Rightarrow> db \<times> event list" where
  "send_scheduled_broadcasts tbot now d =
     (let s0 = open_session d;
          rows = query_personal now (working s0);
          (s1, ev1) = personal_sweep tbot rows s0
      in case query_broadcast now (working s1) of
           None \<Rightarrow>
             if rows \<noteq> []
               then (let s2 = commit s1
                     in (close_session s2, Log Log_info # ev1 @ [Commit (committed s2)]))
             else (close_session s1, Log Log_info # ev1)
         | Some b \<Rightarrow>
             (let s2 = commit (execute (set_sending (b_id b)) s1);
                  (tot, ev2) = broadcast_loop tbot b (users_query (working s2)) 0;
                  s3 = execute (finalize (b_id b) tot now) s2;
                  s4 = commit s3
              in (close_session s4,
                  Log Log_info # ev1
                    @ [Log Log_info, Sql (Set_sending (b_id b)), Commit (committed s2)]
                    @ ev2
                    @ [Sql (Finalize (b_id b) tot now), Log Log_info,
                       Commit (committed s4)])))"


text \<open>
  The scheduler loop of run.py opens a fresh session for every tick and calls the sweep;
  a finite stretch of it is a list of ticks, each with its clock reading and the
  transport's behaviour during that tick.
\<close>

fun scheduled_broadcast :: "(bot \<times> datetime) list \<Rightarrow> db \<Rightarrow> db \<times> event list" where
  "scheduled_broadcast [] d = (d, [])"
| "scheduled_broadcast ((tbot, now) # ticks) d =
     (let (d', ev) = send_scheduled_broadcasts tbot now d;
          (d'', evs) = scheduled_broadcast ticks d'
      in (d'', ev @ evs))"

text \<open>The events of one iteration of the personal loop, and the calls made in a run.\<close>

definition personal_events :: "bot \<Rightarrow> nat \<times> string \<times> int \<Rightarrow> event list" where
  "personal_events tbot r =
     (case r of (rid, txt, tg) \<Rightarrow>
        [Bot (Send_message tg txt) (tbot (Send_message tg txt)),
         Log (personal_log (tbot (Send_message tg txt))), Sql (Mark_sent rid)])"

text \<open>The schedule table after the rows with the given keys were marked, and the working
  state after the personal loop of a tick.\<close>

definition marked :: "nat set \<Rightarrow> ms_row list \<Rightarrow> ms_row list" where
  "marked I ms = map (\<lambda>m. if ms_id m \<in> I then m\<lparr>ms_sent := True\<rparr> else m) ms"

definition after_personal :: "datetime \<Rightarrow> db \<Rightarrow> db" where
  "after_personal now d =
     d\<lparr>message_schedule := marked (fst ` set (query_personal now d)) (message_schedule d)\<rparr>"

fun attempted :: "event list \<Rightarrow> send_call list" where
  "attempted [] = []"
| "attempted (Bot c out # evs) = c # attempted evs"
| "attempted (e # evs) = attempted evs"

fun statements :: "event list \<Rightarrow> statement list" where
  "statements [] = []"
| "statements (Sql q # evs) = q # statements evs"
| "statements (e # evs) = statements evs"


text \<open>The row a finished job is left with, and the permanent "recipient unreachable"
  outcome: an exception whose text contains "blocked".\<close>

definition finished :: "int \<Rightarrow> datetime \<Rightarrow> broadcast_row \<Rightarrow> broadcast_row" where
  "finished tot now b =
     b\<lparr>b_is_sent := True, b_status := Some ''sent'', b_sent_count := tot, b_updated := now\<rparr>"

definition unreachable :: "outcome \<Rightarrow> bool" where
  "unreachable out = (case out of Delivered \<Rightarrow> False | Raised e \<Rightarrow> is_blocked e)"

definition ms_due :: "datetime \<Rightarrow> ms_row \<Rightarrow> bool" where
  "ms_due now m = (ms_send_time m \<le> now \<and> \<not> ms_sent m)"


section \<open>Immediate broadcast (app/database/crud_admin.py, send_broadcast_now)\<close>

text \<open>
  \<^verbatim>\<open>get_users_by_lead_source\<close> joins \<^verbatim>\<open>user\<close> with \<^verbatim>\<open>lead_source\<close> and keeps the
  users of one lead source; \<^verbatim>\<open>get_all_users\<close> returns every user.
\<close>

definition get_users_by_lead_source :: "db \<Rightarrow> nat \<Rightarrow> user_row list" where
  "get_users_by_lead_source d lead_source_id =
     filter (\<lambda>u. case u_lead_source_id u of
                    None \<Rightarrow> False
                  | Some l \<Rightarrow> l \<in> set (lead_source d) \<and> l = lead_source_id) (users d)"

definition get_all_users :: "db \<Rightarrow> user_row list" where
  "get_all_users d = users d"

text \<open>The recipients: \<^verbatim>\<open>target_lead_id\<close> is tested for truthiness, so 0 counts as unset.\<close>

definition broadcast_now_users :: "db \<Rightarrow> broadcast_row \<Rightarrow> user_row list" where
  "broadcast_now_users d b =
     (case b_target_lead_id b of
        None \<Rightarrow> get_all_users d
      | Some l \<Rightarrow> if l \<noteq> 0 then get_users_by_lead_source d l else get_all_users d)"

definition broadcast_now_call :: "broadcast_row \<Rightarrow> int \<Rightarrow> send_call option" where
  "broadcast_now_call b uid =
     (if b_file_type b = Some ''text'' then Some (Send_message uid (b_content b))
      else if b_file_type b = Some ''image'' then Some (Send_photo uid (b_file_id b))
      else if b_file_type b = Some ''file'' then Some (Send_document uid (b_file_id b) None)
      else if b_file_type b = Some ''video'' then Some (Send_video uid (b_file_id b))
      else None)"

fun broadcast_now_loop :: "bot \<Rightarrow> broadcast_row \<Rightarrow> user_row list \<Rightarrow> int \<Rightarrow> int \<times> event list" where
  "broadcast_now_loop tbot b [] sent_count = (sent_count, [])"
| "broadcast_now_loop tbot b (u # us) sent_count =
     (case broadcast_now_call b (u_user_id u) of
        None \<Rightarrow>
          (let (t, evs) = broadcast_now_loop tbot b us (sent_count + 1)
           in (t, Log Log_info # evs))
      | Some c \<Rightarrow>
          (case tbot c of
             Delivered \<Rightarrow>
               (let (t, evs) = broadcast_now_loop tbot b us (sent_count + 1)
                in (t, Bot c Delivered # Log Log_info # evs))
           | Raised e \<Rightarrow>
               (let (t, evs) = broadcast_now_loop tbot b us sent_count
                in (t, Bot c (Raised e) # Log Log_error # evs))))"

text \<open>
  The ORM assignments to \<^verbatim>\<open>status\<close>, \<^verbatim>\<open>is_sent\<close> and \<^verbatim>\<open>sent_count\<close>; the
  \<^verbatim>\<open>updated\<close> column follows its \<^verbatim>\<open>onupdate\<close> default, the store's clock \<open>now\<close>.
\<close>

definition send_broadcast_now :: "bot \<Rightarrow> datetime \<Rightarrow> session \<Rightarrow> nat \<Rightarrow> session \<times> event list" where
  "send_broadcast_now tbot now s broadcast_id =
     (case find (\<lambda>b. b_id b = broadcast_id) (broadcast (working s)) of
        None \<Rightarrow> (s, [])
      | Some b \<Rightarrow>
          (let (sent_count, evs) = broadcast_now_loop tbot b (broadcast_now_users (working s) b) 0;
               s1 = commit (execute (finalize (b_id b) sent_count now) s);
               s2 = commit s1
           in (s2, evs @ [Commit (committed s1), Commit (committed s2), Log Log_info])))"


section \<open>Enrollment (app/handlers/lead_magnet.py, app/database/crud_admin.py)\<close>

datatype error = StoreError | MultipleResultsFound

definition insert_ms :: "ms_row \<Rightarrow> db \<Rightarrow> db" where
  "insert_ms r d = d\<lparr>message_schedule := message_schedule d @ [r], ms_seq := Suc (ms_seq d)\<rparr>"

text \<open>
  \<^verbatim>\<open>add_message_schedule\<close> builds the row, adds it to the session and commits at once.
  \<open>json_dumps\<close> stands for \<^verbatim>\<open>json.dumps\<close> of the three-key dictionary. The store may
  refuse the commit (\<open>accepts\<close> is its verdict on the row): then the call raises and the row
  stays pending in the session. The autoincrement key is drawn from the sequence of the
  working copy, so unlike the store's sequence it is given back by a rollback.
\<close>

definition add_message_schedule ::
  "(string \<Rightarrow> string \<Rightarrow> string \<Rightarrow> string) \<Rightarrow> (ms_row \<Rightarrow> bool) \<Rightarrow> session \<Rightarrow> nat \<Rightarrow> string
     \<Rightarrow> datetime \<Rightarrow> string option \<Rightarrow> string option \<Rightarrow> session \<times> (error + ms_row)" where
  "add_message_schedule json_dumps accepts s user_id message_text scheduled_at file_id file_type =
     (let send_time = scheduled_at;
          payload = (case (file_id, file_type) of
                       (Some f, Some t) \<Rightarrow>
                         if f \<noteq> [] \<and> t \<noteq> [] then json_dumps message_text f t else message_text
                     | _ \<Rightarrow> message_text);
          schedule = \<lparr>ms_id = ms_seq (working s), ms_user_id = user_id,
                      ms_message_text = payload, ms_send_time = send_time, ms_sent = False\<rparr>;
          s1 = execute (insert_ms schedule) s
      in if accepts schedule then (commit s1, Inr schedule) else (s1, Inl StoreError))"

text \<open>
  The loop over the planned reminders. \<open>texts\<close> stands for
  \<^verbatim>\<open>LEAD_MAGNET_TEXTS.get(text_key, default)\<close>. An exception leaves the loop.
\<close>

fun schedule_loop ::
  "(string \<Rightarrow> string \<Rightarrow> string \<Rightarrow> string) \<Rightarrow> (ms_row \<Rightarrow> bool) \<Rightarrow> (string \<Rightarrow> string) \<Rightarrow> datetime
     \<Rightarrow> nat \<Rightarrow> (datetime \<times> string) list \<Rightarrow> session \<Rightarrow> session \<times> (error + unit)" where
  "schedule_loop json_dumps accepts texts now uid [] s = (s, Inr ())"
| "schedule_loop json_dumps accepts texts now uid ((scheduled_at, text_key) # rest) s =
     (if scheduled_at > now then
        (case add_message_schedule json_dumps accepts s uid (texts text_key) scheduled_at
                None None of
           (s', Inl e) \<Rightarrow> (s', Inl e)
         | (s', Inr r) \<Rightarrow> schedule_loop json_dumps accepts texts now uid rest s')
      else schedule_loop json_dumps accepts texts now uid rest s)"

definition lead_magnet_reminders :: "datetime \<Rightarrow> (datetime \<times> string) list" where
  "lead_magnet_reminders now =
     (let lesson_time = now + timedelta 0 1;
          reminder_time = now + timedelta 2 0
      in [(lesson_time, ''welcome''), (reminder_time, ''reminder'')])"

text \<open>
  The try block commits and logs; the except block rolls back and logs the error. Either
  way the function ends normally and returns \<^verbatim>\<open>None\<close>: the second component is what
  the caller gets.
\<close>

definition schedule_lead_magnet_messages ::
  "(string \<Rightarrow> string \<Rightarrow> string \<Rightarrow> string) \<Rightarrow> (ms_row \<Rightarrow> bool) \<Rightarrow> (string \<Rightarrow> string) \<Rightarrow> datetime
     \<Rightarrow> session \<Rightarrow> user_row \<Rightarrow> session \<times> (error + unit) \<times> log_level list" where
  "schedule_lead_magnet_messages json_dumps accepts texts now s user =
     (case schedule_loop json_dumps accepts texts now (u_id user) (lead_magnet_reminders now) s of
        (s', Inr u) \<Rightarrow> (commit s', Inr (), [Log_info])
      | (s', Inl e) \<Rightarrow> (rollback s', Inr (), [Log_error]))"


text \<open>The row that the loop plans for a text key and a due time, given the key the
  sequence hands out.\<close>

definition planned_row :: "(string \<Rightarrow> string) \<Rightarrow> nat \<Rightarrow> user_row \<Rightarrow> string \<Rightarrow> datetime \<Rightarrow> ms_row" where
  "planned_row texts i user text_key at =
     \<lparr>ms_id = i, ms_user_id = u_id user, ms_message_text = texts text_key,
      ms_send_time = at, ms_sent = False\<rparr>"


section \<open>Registration (app/database/crud_user.py, add_user)\<close>

definition insert_user :: "user_row \<Rightarrow> db \<Rightarrow> db" where
  "insert_user r d = d\<lparr>users := users d @ [r], user_seq := Suc (user_seq d)\<rparr>"

text \<open>
  \<^verbatim>\<open>scalar_one_or_none\<close> returns the only matching row, \<^verbatim>\<open>None\<close> when there is none,
  and raises when there are several. \<open>reg_now\<close> is the store's clock, the default of
  \<^verbatim>\<open>registered_at\<close>. The insert is taken to succeed.
\<close>

definition add_user ::
  "datetime \<Rightarrow> session \<Rightarrow> int \<Rightarrow> string option \<Rightarrow> string option \<Rightarrow> string option
     \<Rightarrow> string option \<Rightarrow> nat option \<Rightarrow> session \<times> (error + user_row)" where
  "add_user reg_now s user_id username first_name last_name phone lead_source_id =
     (case filter (\<lambda>u. u_user_id u = user_id) (users (working s)) of
        [] \<Rightarrow>
          (let new_user = \<lparr>u_id = user_seq (working s), u_user_id = user_id,
                           u_username = username, u_first_name = first_name,
                           u_last_name = last_name, u_phone = phone,
                           u_lead_source_id = lead_source_id, u_registered_at = reg_now\<rparr>;
               s1 = commit (execute (insert_user new_user) s)
           in (s1, Inr new_user))
      | [user] \<Rightarrow> (s, Inr user)
      | _ \<Rightarrow> (s, Inl MultipleResultsFound))"


section \<open>A small store for concrete runs\<close>

text \<open>
  Three contacts: the first in lead source 1, the second in lead source 2, the third in
  none. Two personal entries, and two scheduled broadcasts: the first one stored targets
  lead source 1 and is due at 09:00, the second one stored targets everybody and is due at
  08:00 of the same day. The transport refuses the second contact, who blocked the bot.
\<close>

definition demo_user :: "nat \<Rightarrow> int \<Rightarrow> nat option \<Rightarrow> user_row" where
  "demo_user i tg l =
     \<lparr>u_id = i, u_user_id = tg, u_username = None, u_first_name = None, u_last_name = None,
      u_phone = None, u_lead_source_id = l, u_registered_at = mk_datetime 2025 11 1 12 0\<rparr>"

definition demo_job :: "nat \<Rightarrow> string \<Rightarrow> datetime \<Rightarrow> nat option \<Rightarrow> broadcast_row" where
  "demo_job i content t l =
     \<lparr>b_id = i, b_title = ''Broadcast'', b_content = content, b_file_id = None,
      b_file_type = Some ''text'', b_scheduled_at = Some t, b_is_sent = False,
      b_status = Some ''pending'', b_sent_count = 0, b_target_lead_id = l,
      b_updated = mk_datetime 2025 11 4 18 0\<rparr>"

definition demo_entry :: "nat \<Rightarrow> nat \<Rightarrow> string \<Rightarrow> datetime \<Rightarrow> ms_row" where
  "demo_entry i u t at =
     \<lparr>ms_id = i, ms_user_id = u, ms_message_text = t, ms_send_time = at, ms_sent = False\<rparr>"

definition demo_db :: db where
  "demo_db =
     \<lparr>lead_source = [1, 2],
      users = [demo_user 1 101 (Some 1), demo_user 2 102 (Some 2), demo_user 3 103 None],
      message_schedule =
        [demo_entry 1 1 ''welcome'' (mk_datetime 2025 11 5 8 30),
         demo_entry 2 2 ''reminder'' (mk_datetime 2025 11 7 8 30)],
      broadcast =
        [demo_job 1 ''news'' (mk_datetime 2025 11 5 9 0) (Some 1),
         demo_job 2 ''hello'' (mk_datetime 2025 11 5 8 0) None],
      user_seq = 4, ms_seq = 3\<rparr>"

definition demo_bot :: bot where
  "demo_bot c =
     (case c of
        Send_message tg t \<Rightarrow>
          if tg = 102 then Raised ''Forbidden: bot was blocked by the user'' else Delivered
      | _ \<Rightarrow> Delivered)"


text \<open>
  Stand-ins for the enrollment runs: a text table that returns the key with a prefix, an
  encoder that is never reached (no media is passed), a store that accepts every row, one
  that refuses every row and one that refuses the reminder row.
\<close>

definition demo_texts :: "string \<Rightarrow> string" where
  "demo_texts text_key = ''lesson: '' @ text_key"

definition demo_json :: "string \<Rightarrow> string \<Rightarrow> string \<Rightarrow> string" where
  "demo_json t f k = t"

definition accepts_all :: "ms_row \<Rightarrow> bool" where
  "accepts_all r = True"




section \<open>Properties of the stage resolver\<close>

lemma stage_bounds:
  "mk_datetime 2025 10 29 0 0 = 63897379200000000"
  "mk_datetime 2025 11 7 0 0 = 63898156800000000"
  "mk_datetime 2025 11 13 0 0 = 63898675200000000"
  "mk_datetime 2025 11 14 0 0 = 63898761600000000"
  "mk_datetime 2025 11 18 0 0 = 63899107200000000"
  by (simp_all add: mk_datetime_def ymd2ord_def days_before_year_def days_before_month_def
      is_leap_def)

text \<open>
  Claim C6. The stage resolver is a function of the clock reading alone. An instant inside
  one of the three half-open windows gets that window's stage, so two instants of the same
  window get the same stage and no instant gets two stages; an instant inside no window gets
  the explicit empty result \<open>None\<close>.
\<close>

theorem stage_resolver_windows:
  "(\<forall>w \<in> set stage_windows. in_window t w \<longrightarrow> get_current_stage t = Some (fst w))
   \<and> ((\<forall>w \<in> set stage_windows. \<not> in_window t w) \<longrightarrow> get_current_stage t = None)
   \<and> (\<forall>w \<in> set stage_windows. in_window t w \<and> in_window t' w
         \<longrightarrow> get_current_stage t = get_current_stage t')"
  by (simp add: stage_windows_def in_window_def get_current_stage_def stage_bounds)

theorem stage_resolver_windows_witness:
  "(\<exists>w \<in> set stage_windows. in_window (mk_datetime 2025 11 8 9 30) w
       \<and> in_window (mk_datetime 2025 11 12 23 59) w)
   \<and> get_current_stage (mk_datetime 2025 11 8 9 30) = Some ''stage2''
   \<and> get_current_stage (mk_datetime 2025 11 12 23 59) = Some ''stage2''
   \<and> \<not> (\<exists>w \<in> set stage_windows. in_window (mk_datetime 2025 11 13 12 0) w)
   \<and> get_current_stage (mk_datetime 2025 11 13 12 0) = None"
  using stage_resolver_windows [of "mk_datetime 2025 11 8 9 30" "mk_datetime 2025 11 12 23 59"]
    stage_resolver_windows [of "mk_datetime 2025 11 13 12 0"]
  by (auto simp: stage_windows_def in_window_def stage_bounds mk_datetime_def ymd2ord_def
      days_before_year_def days_before_month_def is_leap_def)


section \<open>The dispatcher sweep, unfolded\<close>

lemma personal_sweep_events:
  "snd (personal_sweep tbot rows s) = concat (map (personal_events tbot) rows)"
  by (induction tbot rows s rule: personal_sweep.induct)
    (simp_all add: personal_events_def Let_def case_prod_beta)

lemma personal_sweep_committed:
  "committed (fst (personal_sweep tbot rows s)) = committed s"
  by (induction tbot rows s rule: personal_sweep.induct)
    (simp_all add: execute_def Let_def case_prod_beta)

lemma marked_empty: "marked {} ms = ms"
  by (simp add: marked_def)

lemma marked_insert:
  "marked I (map (\<lambda>m. if ms_id m = i then m\<lparr>ms_sent := True\<rparr> else m) ms) = marked (insert i I) ms"
  by (auto simp: marked_def)

lemma personal_sweep_working:
  "working (fst (personal_sweep tbot rows s)) =
     (working s)\<lparr>message_schedule := marked (fst ` set rows) (message_schedule (working s))\<rparr>"
proof (induction rows arbitrary: s)
  case Nil
  show ?case by (simp add: marked_empty)
next
  case (Cons r rows)
  obtain rid tx tg where r: "r = (rid, tx, tg)" by (cases r)
  show ?case
    using Cons.IH [of "execute (mark_sent rid) s"]
    by (simp add: r execute_def mark_sent_def marked_insert Let_def case_prod_beta)
qed

lemma after_personal_idle: "query_personal now d = [] \<Longrightarrow> after_personal now d = d"
  by (simp add: after_personal_def marked_empty)

lemma broadcast_after_personal: "broadcast (after_personal now d) = broadcast d"
  by (simp add: after_personal_def)

lemma users_after_personal: "users (after_personal now d) = users d"
  by (simp add: after_personal_def)

lemma broadcast_loop_count:
  "fst (broadcast_loop tbot b uids t) =
     t + int (length (filter (\<lambda>u. tbot (broadcast_call b u) = Delivered) uids))"
  by (induction tbot b uids t rule: broadcast_loop.induct)
    (simp_all add: case_prod_beta split: outcome.splits)

lemma broadcast_loop_attempted:
  "attempted (snd (broadcast_loop tbot b uids t)) = map (broadcast_call b) uids"
  by (induction tbot b uids t rule: broadcast_loop.induct)
    (simp_all add: case_prod_beta split: outcome.splits)

lemma broadcast_loop_statements:
  "statements (snd (broadcast_loop tbot b uids t)) = []"
  by (induction tbot b uids t rule: broadcast_loop.induct)
    (simp_all add: case_prod_beta split: outcome.splits)

lemma tick_idle:
  assumes "query_broadcast now d = None"
  shows "send_scheduled_broadcasts tbot now d =
     (after_personal now d,
      Log Log_info # concat (map (personal_events tbot) (query_personal now d))
        @ (if query_personal now d \<noteq> [] then [Commit (after_personal now d)] else []))"
proof -
  let ?s0 = "open_session d"
  let ?rows = "query_personal now d"
  let ?p = "personal_sweep tbot ?rows ?s0"
  have w: "working (fst ?p) = after_personal now d"
    by (simp add: personal_sweep_working open_session_def after_personal_def)
  have c: "committed (fst ?p) = d"
    by (simp add: personal_sweep_committed open_session_def)
  have e: "snd ?p = concat (map (personal_events tbot) ?rows)"
    by (rule personal_sweep_events)
  have q: "query_broadcast now (working (fst ?p)) = None"
    using assms by (simp add: w query_broadcast_def broadcast_after_personal)
  show ?thesis
  proof (cases "?rows = []")
    case True
    then show ?thesis
      using q c by (simp add: send_scheduled_broadcasts_def Let_def case_prod_beta
          open_session_def close_session_def after_personal_idle)
  next
    case False
    then show ?thesis
      using q w e by (simp add: send_scheduled_broadcasts_def Let_def case_prod_beta
          open_session_def close_session_def commit_def)
  qed
qed

lemma tick_job:
  assumes "query_broadcast now d = Some b"
  shows "send_scheduled_broadcasts tbot now d =
     (finalize (b_id b) (fst (broadcast_loop tbot b (users_query d) 0)) now
        (set_sending (b_id b) (after_personal now d)),
      Log Log_info # concat (map (personal_events tbot) (query_personal now d))
        @ [Log Log_info, Sql (Set_sending (b_id b)),
           Commit (set_sending (b_id b) (after_personal now d))]
        @ snd (broadcast_loop tbot b (users_query d) 0)
        @ [Sql (Finalize (b_id b) (fst (broadcast_loop tbot b (users_query d) 0)) now),
           Log Log_info,
           Commit (finalize (b_id b) (fst (broadcast_loop tbot b (users_query d) 0)) now
             (set_sending (b_id b) (after_personal now d)))])"
proof -
  let ?s0 = "open_session d"
  let ?rows = "query_personal now d"
  let ?p = "personal_sweep tbot ?rows ?s0"
  have w: "working (fst ?p) = after_personal now d"
    by (simp add: personal_sweep_working open_session_def after_personal_def)
  have e: "snd ?p = concat (map (personal_events tbot) ?rows)"
    by (rule personal_sweep_events)
  have q: "query_broadcast now (working (fst ?p)) = Some b"
    using assms by (simp add: w query_broadcast_def broadcast_after_personal)
  have u: "users_query (set_sending (b_id b) (after_personal now d)) = users_query d"
    by (simp add: users_query_def set_sending_def after_personal_def)
  show ?thesis
    using q w e u by (simp add: send_scheduled_broadcasts_def Let_def case_prod_beta
        open_session_def close_session_def commit_def execute_def)
qed

lemma statements_append: "statements (xs @ ys) = statements xs @ statements ys"
  by (induction xs rule: statements.induct) simp_all

lemma attempted_append: "attempted (xs @ ys) = attempted xs @ attempted ys"
  by (induction xs rule: attempted.induct) simp_all

lemma statements_personal:
  "statements (concat (map (personal_events tbot) rows)) = map (\<lambda>r. Mark_sent (fst r)) rows"
  by (induction rows) (auto simp: personal_events_def statements_append)

lemma attempted_personal:
  "attempted (concat (map (personal_events tbot) rows)) =
     map (\<lambda>r. Send_message (snd (snd r)) (fst (snd r))) rows"
  by (induction rows) (auto simp: personal_events_def attempted_append)

lemma query_personal_none:
  "\<not> (\<exists>m \<in> set (message_schedule d). ms_due now m) \<Longrightarrow> query_personal now d = []"
  by (auto simp: query_personal_def ms_due_def filter_empty_conv)

lemma query_broadcast_none:
  "query_broadcast now d = None \<longleftrightarrow> \<not> (\<exists>b \<in> set (broadcast d). broadcast_due now b)"
  by (auto simp: query_broadcast_def find_None_iff)

lemma finalize_set_sending:
  "broadcast (finalize i tot now (set_sending i d)) =
     map (\<lambda>r. if b_id r = i then finished tot now r else r) (broadcast d)"
  by (simp add: finalize_def set_sending_def finished_def comp_def)

section \<open>A tick without due work\<close>

text \<open>
  Claim C7. When no personal entry and no broadcast job is due, a tick writes nothing: it
  returns the store as it was and its only event is the opening log line (no update, no
  commit, no transport call). A second tick that again finds nothing due returns the
  same, so the store after both runs is the store before them.
\<close>

theorem sweep_without_due_work:
  assumes "\<forall>m \<in> set (message_schedule d). \<not> ms_due now m"
    and "\<forall>b \<in> set (broadcast d). \<not> broadcast_due now b"
    and "\<forall>m \<in> set (message_schedule d). \<not> ms_due now' m"
    and "\<forall>b \<in> set (broadcast d). \<not> broadcast_due now' b"
  shows "send_scheduled_broadcasts tbot now d = (d, [Log Log_info])
     \<and> send_scheduled_broadcasts tbot' now' (fst (send_scheduled_broadcasts tbot now d))
         = (d, [Log Log_info])"
proof -
  have p: "query_personal now d = []" "query_personal now' d = []"
    using assms(1,3) by (simp_all add: query_personal_none)
  have b: "query_broadcast now d = None" "query_broadcast now' d = None"
    using assms(2,4) by (simp_all add: query_broadcast_none)
  have one: "send_scheduled_broadcasts tbot now d = (d, [Log Log_info])"
    using tick_idle [OF b(1), of tbot] p(1) by (simp add: after_personal_idle)
  have two: "send_scheduled_broadcasts tbot' now' d = (d, [Log Log_info])"
    using tick_idle [OF b(2), of tbot'] p(2) by (simp add: after_personal_idle)
  show ?thesis using one two by simp
qed

text \<open>Unfolding the calendar arithmetic of a literal timestamp.\<close>

lemmas dt_defs = mk_datetime_def ymd2ord_def days_before_year_def days_before_month_def
  is_leap_def

theorem sweep_without_due_work_witness:
  "\<not> (\<exists>m \<in> set (message_schedule demo_db). ms_due (mk_datetime 2025 11 4 8 0) m)
   \<and> \<not> (\<exists>b \<in> set (broadcast demo_db). broadcast_due (mk_datetime 2025 11 4 8 0) b)
   \<and> \<not> (\<exists>m \<in> set (message_schedule demo_db). ms_due (mk_datetime 2025 11 4 8 1) m)
   \<and> \<not> (\<exists>b \<in> set (broadcast demo_db). broadcast_due (mk_datetime 2025 11 4 8 1) b)
   \<and> send_scheduled_broadcasts demo_bot (mk_datetime 2025 11 4 8 0) demo_db
        = (demo_db, [Log Log_info])
   \<and> send_scheduled_broadcasts demo_bot (mk_datetime 2025 11 4 8 1)
        (fst (send_scheduled_broadcasts demo_bot (mk_datetime 2025 11 4 8 0) demo_db))
        = (demo_db, [Log Log_info])"
proof -
  have h1: "\<forall>m \<in> set (message_schedule demo_db). \<not> ms_due (mk_datetime 2025 11 4 8 0) m"
    by (simp add: demo_db_def demo_entry_def ms_due_def dt_defs)
  have h2: "\<forall>b \<in> set (broadcast demo_db). \<not> broadcast_due (mk_datetime 2025 11 4 8 0) b"
    by (simp add: demo_db_def demo_job_def broadcast_due_def dt_defs)
  have h3: "\<forall>m \<in> set (message_schedule demo_db). \<not> ms_due (mk_datetime 2025 11 4 8 1) m"
    by (simp add: demo_db_def demo_entry_def ms_due_def dt_defs)
  have h4: "\<forall>b \<in> set (broadcast demo_db). \<not> broadcast_due (mk_datetime 2025 11 4 8 1) b"
    by (simp add: demo_db_def demo_job_def broadcast_due_def dt_defs)
  show ?thesis
    using sweep_without_due_work [OF h1 h2 h3 h4, of demo_bot demo_bot] h1 h2 h3 h4
    by blast
qed

section \<open>Selection of the broadcast job\<close>

lemma query_broadcast_first:
  assumes "query_broadcast now d = Some b"
  shows "\<exists>i < length (broadcast d). broadcast d ! i = b \<and> broadcast_due now b
           \<and> \<not> (\<exists>j < i. broadcast_due now (broadcast d ! j))"
  using assms by (auto simp: query_broadcast_def find_Some_iff)

lemma tick_job_table:
  assumes "query_broadcast now d = Some b"
  shows "broadcast (fst (send_scheduled_broadcasts tbot now d)) =
     map (\<lambda>r. if b_id r = b_id b
               then finished (fst (broadcast_loop tbot b (users_query d) 0)) now r else r)
       (broadcast d)"
  by (simp add: tick_job [OF assms] finalize_set_sending broadcast_after_personal)

lemma tick_job_statements:
  assumes "query_broadcast now d = Some b"
  shows "statements (snd (send_scheduled_broadcasts tbot now d)) =
     map (\<lambda>r. Mark_sent (fst r)) (query_personal now d)
       @ [Set_sending (b_id b),
          Finalize (b_id b) (fst (broadcast_loop tbot b (users_query d) 0)) now]"
  by (simp add: tick_job [OF assms] statements_append statements_personal
      broadcast_loop_statements)

lemma tick_idle_statements:
  assumes "query_broadcast now d = None"
  shows "statements (snd (send_scheduled_broadcasts tbot now d)) =
     map (\<lambda>r. Mark_sent (fst r)) (query_personal now d)"
  by (simp add: tick_idle [OF assms] statements_append statements_personal)

lemma tick_idle_table:
  assumes "query_broadcast now d = None"
  shows "broadcast (fst (send_scheduled_broadcasts tbot now d)) = broadcast d"
  by (simp add: tick_idle [OF assms] broadcast_after_personal)

text \<open>
  Claim C3, amended. A tick takes at most one broadcast job, and only a job that is due
  (scheduled at or before now, status null or pending, not sent). Among several due jobs it
  takes the first one in the store's scan order, whatever their due times. The job's row is
  the only row of the table that changes, and the only broadcast statements are the two
  updates of that job. When no job is due, the broadcast table stays as it is and no
  broadcast statement is issued.
\<close>

theorem broadcast_selection:
  "(case query_broadcast now d of
      None \<Rightarrow>
        \<not> (\<exists>b \<in> set (broadcast d). broadcast_due now b)
        \<and> broadcast (fst (send_scheduled_broadcasts tbot now d)) = broadcast d
        \<and> statements (snd (send_scheduled_broadcasts tbot now d)) =
            map (\<lambda>r. Mark_sent (fst r)) (query_personal now d)
    | Some b \<Rightarrow>
        (\<exists>i < length (broadcast d). broadcast d ! i = b \<and> broadcast_due now b
           \<and> \<not> (\<exists>j < i. broadcast_due now (broadcast d ! j)))
        \<and> (\<exists>tot. broadcast (fst (send_scheduled_broadcasts tbot now d)) =
              map (\<lambda>r. if b_id r = b_id b then finished tot now r else r) (broadcast d)
            \<and> statements (snd (send_scheduled_broadcasts tbot now d)) =
                map (\<lambda>r. Mark_sent (fst r)) (query_personal now d)
                  @ [Set_sending (b_id b), Finalize (b_id b) tot now]))"
proof (cases "query_broadcast now d")
  case None
  have "\<not> (\<exists>b \<in> set (broadcast d). broadcast_due now b)"
    using None by (simp add: query_broadcast_none)
  then show ?thesis
    by (simp add: None tick_idle_table [OF None] tick_idle_statements [OF None])
next
  case (Some b)
  show ?thesis
    using query_broadcast_first [OF Some]
    by (auto simp: Some tick_job_table [OF Some] tick_job_statements [OF Some])
qed

theorem broadcast_selection_witness:
  "query_broadcast (mk_datetime 2025 11 5 9 0) demo_db
     = Some (demo_job 1 ''news'' (mk_datetime 2025 11 5 9 0) (Some 1))
   \<and> (\<exists>tot. broadcast (fst (send_scheduled_broadcasts demo_bot (mk_datetime 2025 11 5 9 0) demo_db))
        = [finished tot (mk_datetime 2025 11 5 9 0)
             (demo_job 1 ''news'' (mk_datetime 2025 11 5 9 0) (Some 1)),
           demo_job 2 ''hello'' (mk_datetime 2025 11 5 8 0) None])
   \<and> query_broadcast (mk_datetime 2025 11 4 8 0) demo_db = None
   \<and> broadcast (fst (send_scheduled_broadcasts demo_bot (mk_datetime 2025 11 4 8 0) demo_db))
        = broadcast demo_db"
proof -
  have q: "query_broadcast (mk_datetime 2025 11 5 9 0) demo_db
     = Some (demo_job 1 ''news'' (mk_datetime 2025 11 5 9 0) (Some 1))"
    by (simp add: query_broadcast_def demo_db_def demo_job_def broadcast_due_def dt_defs)
  have n: "query_broadcast (mk_datetime 2025 11 4 8 0) demo_db = None"
    by (simp add: query_broadcast_def demo_db_def demo_job_def broadcast_due_def dt_defs)
  have t: "broadcast demo_db = [demo_job 1 ''news'' (mk_datetime 2025 11 5 9 0) (Some 1),
           demo_job 2 ''hello'' (mk_datetime 2025 11 5 8 0) None]"
    by (simp add: demo_db_def)
  have i: "\<And>k c u l. b_id (demo_job k c u l) = k"
    by (simp add: demo_job_def)
  have "\<exists>tot. broadcast (fst (send_scheduled_broadcasts demo_bot (mk_datetime 2025 11 5 9 0) demo_db))
      = map (\<lambda>r. if b_id r = b_id (demo_job 1 ''news'' (mk_datetime 2025 11 5 9 0) (Some 1))
                    then finished tot (mk_datetime 2025 11 5 9 0) r else r) (broadcast demo_db)"
    using broadcast_selection [where now = "mk_datetime 2025 11 5 9 0" and d = demo_db
        and tbot = demo_bot]
    unfolding q by auto
  then have one: "\<exists>tot. broadcast (fst (send_scheduled_broadcasts demo_bot (mk_datetime 2025 11 5 9 0) demo_db))
        = [finished tot (mk_datetime 2025 11 5 9 0)
             (demo_job 1 ''news'' (mk_datetime 2025 11 5 9 0) (Some 1)),
           demo_job 2 ''hello'' (mk_datetime 2025 11 5 8 0) None]"
    by (simp add: t i)
  have two: "broadcast (fst (send_scheduled_broadcasts demo_bot (mk_datetime 2025 11 4 8 0) demo_db))
        = broadcast demo_db"
    using broadcast_selection [where now = "mk_datetime 2025 11 4 8 0" and d = demo_db
        and tbot = demo_bot]
    unfolding n by simp
  show ?thesis using q n one two by blast
qed

text \<open>
  The claim as written fails: at 09:00 both jobs of the demo store are due, the second one
  since 08:00, and the tick takes the first one stored, due at 09:00; the earlier-due job
  is still pending afterwards.
\<close>

theorem earliest_due_not_chosen:
  "map b_scheduled_at
       (broadcast (fst (send_scheduled_broadcasts demo_bot (mk_datetime 2025 11 5 9 0) demo_db)))
     = [Some (mk_datetime 2025 11 5 9 0), Some (mk_datetime 2025 11 5 8 0)]
   \<and> map b_status
       (broadcast (fst (send_scheduled_broadcasts demo_bot (mk_datetime 2025 11 5 9 0) demo_db)))
     = [Some ''sent'', Some ''pending'']
   \<and> mk_datetime 2025 11 5 8 0 < mk_datetime 2025 11 5 9 0
   \<and> broadcast_due (mk_datetime 2025 11 5 9 0)
         (demo_job 2 ''hello'' (mk_datetime 2025 11 5 8 0) None)"
  by code_simp

section \<open>Recipients and the delivery counter of a broadcast\<close>

lemma tick_job_attempted:
  assumes "query_broadcast now d = Some b"
  shows "attempted (snd (send_scheduled_broadcasts tbot now d)) =
     map (\<lambda>r. Send_message (snd (snd r)) (fst (snd r))) (query_personal now d)
       @ map (broadcast_call b) (users_query d)"
  by (simp add: tick_job [OF assms] attempted_append attempted_personal
      broadcast_loop_attempted)

lemma delivered_count:
  assumes "\<forall>u \<in> set us. f u = Delivered \<or> unreachable (f u)"
  shows "int (length (filter (\<lambda>u. f u = Delivered) us)) =
     int (length us) - int (length (filter (\<lambda>u. unreachable (f u)) us))"
proof -
  have "filter (\<lambda>u. unreachable (f u)) us = filter (\<lambda>u. \<not> f u = Delivered) us"
    using assms by (intro filter_cong) (auto simp: unreachable_def)
  then show ?thesis
    using sum_length_filter_compl [of "\<lambda>u. f u = Delivered" us] by simp
qed

text \<open>
  Claim C1 fails on the code. The sweep's recipient query selects every user and never
  reads \<open>target_lead_id\<close>: in the demo store the job due at 09:00 targets lead source 1,
  whose only member is contact 101, and the tick sends it to 101, 102 and 103. The immediate
  path \<open>send_broadcast_now\<close> resolves the same job to contact 101 alone.
\<close>

theorem sweep_ignores_segment_filter:
  "query_broadcast (mk_datetime 2025 11 5 9 0) demo_db
     = Some (demo_job 1 ''news'' (mk_datetime 2025 11 5 9 0) (Some 1))
   \<and> map u_user_id (get_users_by_lead_source demo_db 1) = [101]
   \<and> attempted (snd (send_scheduled_broadcasts demo_bot (mk_datetime 2025 11 5 9 0) demo_db))
       = [Send_message 101 ''welcome'', Send_message 101 ''news'', Send_message 102 ''news'',
          Send_message 103 ''news'']
   \<and> map u_user_id
         (broadcast_now_users demo_db (demo_job 1 ''news'' (mk_datetime 2025 11 5 9 0) (Some 1)))
       = [101]"
  by code_simp

text \<open>
  Claim C5. A tick that takes job \<open>b\<close> attempts the \<open>n\<close> recipients; when exactly \<open>k\<close> of
  them fail with the permanent "blocked" error and all others succeed, the job's row ends
  with \<open>sent_count = n - k\<close>, status \<open>sent\<close> and \<open>is_sent\<close> set.
\<close>

theorem broadcast_sent_count:
  assumes "query_broadcast now d = Some b"
    and "\<forall>u \<in> set (users_query d).
           tbot (broadcast_call b u) = Delivered \<or> unreachable (tbot (broadcast_call b u))"
    and "k = length (filter (\<lambda>u. unreachable (tbot (broadcast_call b u))) (users_query d))"
    and "n = length (users_query d)"
  shows "(\<exists>r \<in> set (broadcast (fst (send_scheduled_broadcasts tbot now d))). b_id r = b_id b)
     \<and> (\<forall>r \<in> set (broadcast (fst (send_scheduled_broadcasts tbot now d))).
           b_id r = b_id b \<longrightarrow>
             b_sent_count r = int n - int k \<and> b_status r = Some ''sent'' \<and> b_is_sent r)"
proof -
  have tot: "fst (broadcast_loop tbot b (users_query d) 0) = int n - int k"
    using delivered_count [OF assms(2)] assms(3,4) by (simp add: broadcast_loop_count)
  have mem: "b \<in> set (broadcast d)"
    using query_broadcast_first [OF assms(1)] by auto
  let ?f = "\<lambda>r. if b_id r = b_id b then finished (int n - int k) now r else r"
  have tab: "broadcast (fst (send_scheduled_broadcasts tbot now d)) = map ?f (broadcast d)"
    by (simp add: tick_job_table [OF assms(1)] tot)
  have "?f b \<in> set (map ?f (broadcast d))"
    using mem by (intro imageI [of b "set (broadcast d)" ?f, folded set_map])
  moreover have "b_id (?f b) = b_id b"
    by (simp add: finished_def)
  ultimately have ex: "\<exists>r \<in> set (map ?f (broadcast d)). b_id r = b_id b"
    by blast
  have all: "\<forall>r \<in> set (map ?f (broadcast d)). b_id r = b_id b \<longrightarrow>
       b_sent_count r = int n - int k \<and> b_status r = Some ''sent'' \<and> b_is_sent r"
    by (auto simp: finished_def)
  show ?thesis
    unfolding tab using ex all by blast
qed

theorem broadcast_sent_count_witness:
  "query_broadcast (mk_datetime 2025 11 5 9 0) demo_db
     = Some (demo_job 1 ''news'' (mk_datetime 2025 11 5 9 0) (Some 1))
   \<and> users_query demo_db = [101, 102, 103]
   \<and> map (\<lambda>u. demo_bot (broadcast_call (demo_job 1 ''news'' (mk_datetime 2025 11 5 9 0) (Some 1)) u))
        (users_query demo_db)
       = [Delivered, Raised ''Forbidden: bot was blocked by the user'', Delivered]
   \<and> unreachable (Raised ''Forbidden: bot was blocked by the user'')
   \<and> map b_id (broadcast (fst (send_scheduled_broadcasts demo_bot (mk_datetime 2025 11 5 9 0) demo_db)))
       = [1, 2]
   \<and> (\<exists>r \<in> set (broadcast (fst (send_scheduled_broadcasts demo_bot (mk_datetime 2025 11 5 9 0) demo_db))).
         b_id r = 1 \<and> b_sent_count r = 2 \<and> b_status r = Some ''sent'' \<and> b_is_sent r)"
proof -
  let ?T = "mk_datetime 2025 11 5 9 0"
  let ?b = "demo_job 1 ''news'' ?T (Some 1)"
  have q: "query_broadcast ?T demo_db = Some ?b"
    by code_simp
  have us: "users_query demo_db = [101, 102, 103]"
    by code_simp
  have outs: "map (\<lambda>u. demo_bot (broadcast_call ?b u)) (users_query demo_db)
       = [Delivered, Raised ''Forbidden: bot was blocked by the user'', Delivered]"
    by code_simp
  have blk: "unreachable (Raised ''Forbidden: bot was blocked by the user'')"
    by code_simp
  have h2: "\<forall>u \<in> set (users_query demo_db).
       demo_bot (broadcast_call ?b u) = Delivered \<or> unreachable (demo_bot (broadcast_call ?b u))"
    using outs blk unfolding us by simp
  have k: "(1::nat) = length (filter (\<lambda>u. unreachable (demo_bot (broadcast_call ?b u)))
       (users_query demo_db))"
    using outs blk unfolding us by (simp add: unreachable_def)
  have n: "(3::nat) = length (users_query demo_db)"
    by (simp add: us)
  have ids: "map b_id (broadcast (fst (send_scheduled_broadcasts demo_bot ?T demo_db))) = [1, 2]"
    by code_simp
  have i: "b_id ?b = 1"
    by (simp add: demo_job_def)
  have "\<exists>r \<in> set (broadcast (fst (send_scheduled_broadcasts demo_bot ?T demo_db))).
         b_id r = 1 \<and> b_sent_count r = 2 \<and> b_status r = Some ''sent'' \<and> b_is_sent r"
    using broadcast_sent_count [OF q h2 k n] unfolding i by auto
  then show ?thesis
    using q us outs blk ids by blast
qed

section \<open>Personal entries\<close>

lemma filter_key_unique:
  "distinct (map f xs) \<Longrightarrow> x \<in> set xs \<Longrightarrow> filter (\<lambda>y. f y = f x) xs = [x]"
proof (induction xs)
  case Nil
  then show ?case by simp
next
  case (Cons a xs)
  show ?case
  proof (cases "a = x")
    case True
    have "f x \<notin> f ` set xs"
      using Cons.prems(1) True by simp
    then have "\<forall>y \<in> set xs. f y \<noteq> f x"
      by (metis imageI)
    then have "filter (\<lambda>y. f y = f x) xs = []"
      by (simp add: filter_empty_conv)
    then show ?thesis using True by simp
  next
    case False
    then have "x \<in> set xs" using Cons.prems(2) by simp
    moreover have "f a \<noteq> f x"
      using Cons.prems(1) \<open>x \<in> set xs\<close> by auto
    ultimately show ?thesis using Cons by simp
  qed
qed













section \<open>Life cycle of a broadcast job\<close>

lemma filter_map_key:
  assumes "\<And>x. k (f x) = k x"
  shows "filter (\<lambda>r. P (k r)) (map f xs) = map f (filter (\<lambda>r. P (k r)) xs)"
  by (induction xs) (simp_all add: assms)

lemma map_other_keys:
  "filter (\<lambda>r. k r \<noteq> c) (map (\<lambda>r. if k r = c then f r else r) xs)
     = filter (\<lambda>r. k r \<noteq> c) xs" if "\<And>x. k (f x) = k x"
  by (induction xs) (simp_all add: that)

lemma tick_ids:
  "map b_id (broadcast (fst (send_scheduled_broadcasts tbot now d))) = map b_id (broadcast d)"
proof (cases "query_broadcast now d")
  case None
  show ?thesis by (simp add: tick_idle_table [OF None])
next
  case (Some b)
  show ?thesis by (simp add: tick_job_table [OF Some] finished_def comp_def)
qed

lemma tick_keeps_sent:
  assumes "distinct (map b_id (broadcast d))" and "r \<in> set (broadcast d)" and "b_is_sent r"
  shows "r \<in> set (broadcast (fst (send_scheduled_broadcasts tbot now d)))"
proof (cases "query_broadcast now d")
  case None
  show ?thesis using assms(2) by (simp add: tick_idle_table [OF None])
next
  case (Some b)
  have b: "b \<in> set (broadcast d)" "broadcast_due now b"
    using query_broadcast_first [OF Some] by auto
  have "\<not> b_is_sent b"
    using b(2) by (simp add: broadcast_due_def)
  have one: "filter (\<lambda>y. b_id y = b_id b) (broadcast d) = [b]"
    by (rule filter_key_unique [OF assms(1) b(1)])
  have ne: "b_id r \<noteq> b_id b"
  proof
    assume "b_id r = b_id b"
    then have "r \<in> set (filter (\<lambda>y. b_id y = b_id b) (broadcast d))"
      using assms(2) by simp
    then have "r = b"
      unfolding one by simp
    then show False
      using assms(3) \<open>\<not> b_is_sent b\<close> by simp
  qed
  show ?thesis
    unfolding tick_job_table [OF Some] set_map image_iff
    by (rule bexI [OF _ assms(2)]) (simp add: ne)
qed

lemma ticks_keep_sent:
  assumes "distinct (map b_id (broadcast d))" and "r \<in> set (broadcast d)" and "b_is_sent r"
  shows "r \<in> set (broadcast (fst (scheduled_broadcast ticks d)))
     \<and> distinct (map b_id (broadcast (fst (scheduled_broadcast ticks d))))"
  using assms
proof (induction ticks arbitrary: d)
  case Nil
  then show ?case by simp
next
  case (Cons t ticks)
  obtain tbot now where t: "t = (tbot, now)" by (cases t)
  let ?d = "fst (send_scheduled_broadcasts tbot now d)"
  have "distinct (map b_id (broadcast ?d))"
    using Cons.prems(1) by (simp add: tick_ids)
  moreover have "r \<in> set (broadcast ?d)"
    by (rule tick_keeps_sent [OF Cons.prems])
  ultimately show ?case
    using Cons.IH [of ?d] Cons.prems(3) by (simp add: t case_prod_beta Let_def)
qed

text \<open>
  Claim C4. For the job \<open>b\<close> that a tick takes (primary keys being unique): its status was
  null or pending; the run is the personal sweep, then the update to \<open>sending\<close> and a
  commit that makes exactly this change to the job durable, then the fan-out, which holds
  one attempt per recipient and no statement, then one update that sets \<open>is_sent\<close>,
  status \<open>sent\<close> and \<open>sent_count\<close> together, and the closing commit. Every other job
  is untouched, and through any later ticks the job's row, with its \<open>sent_count\<close>, stays
  as that update left it.
\<close>

theorem broadcast_status_forward:
  fixes tbot :: bot and ticks :: "(bot \<times> datetime) list"
  assumes due: "query_broadcast now d = Some b"
    and keys: "distinct (map b_id (broadcast d))"
  defines "run \<equiv> send_scheduled_broadcasts tbot now d"
    and "tot \<equiv> fst (broadcast_loop tbot b (users_query d) 0)"
    and "fanout \<equiv> snd (broadcast_loop tbot b (users_query d) 0)"
    and "dmid \<equiv> set_sending (b_id b) (after_personal now d)"
  shows "(b_status b = None \<or> b_status b = Some ''pending'')
     \<and> snd run = Log Log_info # concat (map (personal_events tbot) (query_personal now d))
          @ [Log Log_info, Sql (Set_sending (b_id b)), Commit dmid]
          @ fanout
          @ [Sql (Finalize (b_id b) tot now), Log Log_info, Commit (fst run)]
     \<and> filter (\<lambda>r. b_id r = b_id b) (broadcast dmid) = [b\<lparr>b_status := Some ''sending''\<rparr>]
     \<and> filter (\<lambda>r. b_id r \<noteq> b_id b) (broadcast dmid)
          = filter (\<lambda>r. b_id r \<noteq> b_id b) (broadcast d)
     \<and> statements fanout = []
     \<and> attempted fanout = map (broadcast_call b) (users_query d)
     \<and> filter (\<lambda>r. b_id r = b_id b) (broadcast (fst run)) = [finished tot now b]
     \<and> filter (\<lambda>r. b_id r \<noteq> b_id b) (broadcast (fst run))
          = filter (\<lambda>r. b_id r \<noteq> b_id b) (broadcast d)
     \<and> filter (\<lambda>r. b_id r = b_id b) (broadcast (fst (scheduled_broadcast ticks (fst run))))
          = [finished tot now b]"
proof -
  have b: "b \<in> set (broadcast d)" "broadcast_due now b"
    using query_broadcast_first [OF due] by auto
  have one: "filter (\<lambda>r. b_id r = b_id b) (broadcast d) = [b]"
    by (rule filter_key_unique [OF keys b(1)])
  have st: "b_status b = None \<or> b_status b = Some ''pending''"
    using b(2) by (simp add: broadcast_due_def)
  have tr: "snd run = Log Log_info # concat (map (personal_events tbot) (query_personal now d))
          @ [Log Log_info, Sql (Set_sending (b_id b)), Commit dmid]
          @ fanout
          @ [Sql (Finalize (b_id b) tot now), Log Log_info, Commit (fst run)]"
    unfolding run_def tot_def fanout_def dmid_def by (simp add: tick_job [OF due])
  have mid: "broadcast dmid =
      map (\<lambda>r. if b_id r = b_id b then r\<lparr>b_status := Some ''sending''\<rparr> else r) (broadcast d)"
    unfolding dmid_def by (simp add: set_sending_def after_personal_def)
  have m1: "filter (\<lambda>r. b_id r = b_id b) (broadcast dmid) = [b\<lparr>b_status := Some ''sending''\<rparr>]"
    unfolding mid
    using filter_map_key [of b_id
        "\<lambda>r. if b_id r = b_id b then r\<lparr>b_status := Some ''sending''\<rparr> else r"
        "\<lambda>i. i = b_id b" "broadcast d"]
    by (simp add: one)
  have m2: "filter (\<lambda>r. b_id r \<noteq> b_id b) (broadcast dmid)
      = filter (\<lambda>r. b_id r \<noteq> b_id b) (broadcast d)"
    unfolding mid by (rule map_other_keys) simp
  have fin: "broadcast (fst run) =
      map (\<lambda>r. if b_id r = b_id b then finished tot now r else r) (broadcast d)"
    unfolding run_def tot_def by (rule tick_job_table [OF due])
  have f1: "filter (\<lambda>r. b_id r = b_id b) (broadcast (fst run)) = [finished tot now b]"
    unfolding fin
    using filter_map_key [of b_id "\<lambda>r. if b_id r = b_id b then finished tot now r else r"
        "\<lambda>i. i = b_id b" "broadcast d"]
    by (simp add: one finished_def)
  have f2: "filter (\<lambda>r. b_id r \<noteq> b_id b) (broadcast (fst run))
      = filter (\<lambda>r. b_id r \<noteq> b_id b) (broadcast d)"
    unfolding fin by (rule map_other_keys) (simp add: finished_def)
  have k': "distinct (map b_id (broadcast (fst run)))"
    unfolding run_def using keys by (simp add: tick_ids)
  have "finished tot now b \<in> set (filter (\<lambda>r. b_id r = b_id b) (broadcast (fst run)))"
    by (simp add: f1)
  then have mem: "finished tot now b \<in> set (broadcast (fst run))"
    by simp
  have sent: "b_is_sent (finished tot now b)"
    by (simp add: finished_def)
  have later: "finished tot now b \<in> set (broadcast (fst (scheduled_broadcast ticks (fst run))))"
    "distinct (map b_id (broadcast (fst (scheduled_broadcast ticks (fst run)))))"
    using ticks_keep_sent [OF k' mem sent, of ticks] by simp_all
  have "filter (\<lambda>r. b_id r = b_id (finished tot now b))
      (broadcast (fst (scheduled_broadcast ticks (fst run)))) = [finished tot now b]"
    by (rule filter_key_unique [OF later(2) later(1)])
  then have l: "filter (\<lambda>r. b_id r = b_id b)
      (broadcast (fst (scheduled_broadcast ticks (fst run)))) = [finished tot now b]"
    by (simp add: finished_def)
  have fo: "statements fanout = []" "attempted fanout = map (broadcast_call b) (users_query d)"
    unfolding fanout_def by (simp_all add: broadcast_loop_statements broadcast_loop_attempted)
  show ?thesis
    using st tr m1 m2 fo f1 f2 l by blast
qed

theorem broadcast_status_forward_witness:
  "query_broadcast (mk_datetime 2025 11 5 9 0) demo_db
     = Some (demo_job 1 ''news'' (mk_datetime 2025 11 5 9 0) (Some 1))
   \<and> distinct (map b_id (broadcast demo_db))
   \<and> b_status (demo_job 1 ''news'' (mk_datetime 2025 11 5 9 0) (Some 1)) = Some ''pending''
   \<and> filter (\<lambda>r. b_id r = 1)
        (broadcast (set_sending 1 (after_personal (mk_datetime 2025 11 5 9 0) demo_db)))
       = [(demo_job 1 ''news'' (mk_datetime 2025 11 5 9 0) (Some 1))\<lparr>b_status := Some ''sending''\<rparr>]
   \<and> attempted (snd (broadcast_loop demo_bot
          (demo_job 1 ''news'' (mk_datetime 2025 11 5 9 0) (Some 1)) (users_query demo_db) 0))
       = [Send_message 101 ''news'', Send_message 102 ''news'', Send_message 103 ''news'']
   \<and> filter (\<lambda>r. b_id r = 1)
        (broadcast (fst (send_scheduled_broadcasts demo_bot (mk_datetime 2025 11 5 9 0) demo_db)))
       = [finished 2 (mk_datetime 2025 11 5 9 0)
            (demo_job 1 ''news'' (mk_datetime 2025 11 5 9 0) (Some 1))]
   \<and> filter (\<lambda>r. b_id r = 1)
        (broadcast (fst (scheduled_broadcast
           [(demo_bot, mk_datetime 2025 11 5 9 1), (demo_bot, mk_datetime 2025 11 5 9 2)]
           (fst (send_scheduled_broadcasts demo_bot (mk_datetime 2025 11 5 9 0) demo_db)))))
       = [finished 2 (mk_datetime 2025 11 5 9 0)
            (demo_job 1 ''news'' (mk_datetime 2025 11 5 9 0) (Some 1))]"
proof -
  let ?T = "mk_datetime 2025 11 5 9 0"
  let ?b = "demo_job 1 ''news'' ?T (Some 1)"
  have q: "query_broadcast ?T demo_db = Some ?b"
    by code_simp
  have keys: "distinct (map b_id (broadcast demo_db))"
    by (simp add: demo_db_def demo_job_def)
  have st: "b_status ?b = Some ''pending''"
    by (simp add: demo_job_def)
  have i: "b_id ?b = 1"
    by (simp add: demo_job_def)
  have tot: "fst (broadcast_loop demo_bot ?b (users_query demo_db) 0) = 2"
    by code_simp
  have calls: "map (broadcast_call ?b) (users_query demo_db)
      = [Send_message 101 ''news'', Send_message 102 ''news'', Send_message 103 ''news'']"
    by code_simp
  note main = broadcast_status_forward [OF q keys, of demo_bot
      "[(demo_bot, mk_datetime 2025 11 5 9 1), (demo_bot, mk_datetime 2025 11 5 9 2)]"]
  show ?thesis
    using main q keys st unfolding i tot calls by blast
qed

section \<open>Enrollment in the lead-magnet funnel\<close>

lemma add_message_schedule_plain:
  "add_message_schedule json_dumps accepts s (u_id user) (texts k) at None None =
     (let r = planned_row texts (ms_seq (working s)) user k at;
          s1 = execute (insert_ms r) s
      in if accepts r then (commit s1, Inr r) else (s1, Inl StoreError))"
  by (simp add: add_message_schedule_def planned_row_def Let_def)

lemma schedule_loop_skip:
  "at \<le> now \<Longrightarrow>
     schedule_loop json_dumps accepts texts now uid ((at, k) # rest) s
       = schedule_loop json_dumps accepts texts now uid rest s"
  by simp

lemma timedelta_pos: "0 < timedelta 0 1" "0 < timedelta 2 0"
  by (simp_all add: timedelta_def)

lemma timedelta_future: "now < now + timedelta 0 1" "now < now + timedelta 2 0"
  by (simp_all add: timedelta_pos)

lemma schedule_loop_plan:
  "schedule_loop json_dumps accepts texts now (u_id user) (lead_magnet_reminders now) s =
     (let r1 = planned_row texts (ms_seq (working s)) user ''welcome'' (now + timedelta 0 1);
          s1 = execute (insert_ms r1) s
      in if \<not> accepts r1 then (s1, Inl StoreError)
         else (let r2 = planned_row texts (Suc (ms_seq (working s))) user ''reminder''
                          (now + timedelta 2 0);
                   s2 = execute (insert_ms r2) (commit s1)
               in if \<not> accepts r2 then (s2, Inl StoreError) else (commit s2, Inr ())))"
  by (simp add: lead_magnet_reminders_def timedelta_pos add_message_schedule_plain Let_def
      execute_def commit_def insert_ms_def)

text \<open>
  Claim C8, amended. Enrollment at \<open>now\<close> plans two entries, due at \<open>now\<close> plus one
  minute and at \<open>now\<close> plus two days; both pass the guard that skips an entry whose due
  time is not strictly after \<open>now\<close>. When the store accepts both, exactly these two rows
  are appended, for the enrolled contact and unsent, and they are durable.
\<close>

theorem lead_magnet_enrollment:
  assumes "accepts (planned_row texts (ms_seq (working s)) user ''welcome'' (now + timedelta 0 1))"
    and "accepts (planned_row texts (Suc (ms_seq (working s))) user ''reminder''
           (now + timedelta 2 0))"
  shows "message_schedule (committed (fst (schedule_lead_magnet_messages json_dumps accepts texts
             now s user)))
       = message_schedule (working s)
           @ [planned_row texts (ms_seq (working s)) user ''welcome'' (now + timedelta 0 1),
              planned_row texts (Suc (ms_seq (working s))) user ''reminder''
                (now + timedelta 2 0)]
     \<and> snd (schedule_lead_magnet_messages json_dumps accepts texts now s user)
         = (Inr (), [Log_info])
     \<and> now < now + timedelta 0 1 \<and> now < now + timedelta 2 0
     \<and> timedelta 0 1 = 60000000 \<and> timedelta 2 0 = 172800000000
     \<and> (\<forall>at k rest s0. at \<le> now \<longrightarrow>
           schedule_loop json_dumps accepts texts now (u_id user) ((at, k) # rest) s0
             = schedule_loop json_dumps accepts texts now (u_id user) rest s0)"
proof -
  have run: "schedule_lead_magnet_messages json_dumps accepts texts now s user =
      (commit (commit (execute (insert_ms (planned_row texts (Suc (ms_seq (working s))) user
           ''reminder'' (now + timedelta 2 0)))
         (commit (execute (insert_ms (planned_row texts (ms_seq (working s)) user ''welcome''
           (now + timedelta 0 1))) s)))),
       Inr (), [Log_info])"
    using assms by (simp add: schedule_lead_magnet_messages_def schedule_loop_plan Let_def)
  have tab: "message_schedule (committed (fst (schedule_lead_magnet_messages json_dumps accepts
        texts now s user)))
       = message_schedule (working s)
           @ [planned_row texts (ms_seq (working s)) user ''welcome'' (now + timedelta 0 1),
              planned_row texts (Suc (ms_seq (working s))) user ''reminder''
                (now + timedelta 2 0)]"
    unfolding run by (simp add: commit_def execute_def insert_ms_def)
  have res: "snd (schedule_lead_magnet_messages json_dumps accepts texts now s user)
         = (Inr (), [Log_info])"
    unfolding run by simp
  have td: "timedelta 0 1 = 60000000" "timedelta 2 0 = 172800000000"
    by (simp_all add: timedelta_def)
  show ?thesis
    using tab res td timedelta_future [of now] by (simp add: schedule_loop_skip)
qed

theorem lead_magnet_enrollment_witness:
  "accepts_all (planned_row demo_texts (ms_seq (working (open_session demo_db)))
       (demo_user 3 103 None) ''welcome'' (mk_datetime 2025 11 1 10 0 + timedelta 0 1))
   \<and> accepts_all (planned_row demo_texts (Suc (ms_seq (working (open_session demo_db))))
       (demo_user 3 103 None) ''reminder'' (mk_datetime 2025 11 1 10 0 + timedelta 2 0))
   \<and> message_schedule (committed (fst (schedule_lead_magnet_messages demo_json accepts_all
         demo_texts (mk_datetime 2025 11 1 10 0) (open_session demo_db) (demo_user 3 103 None))))
       = message_schedule (working (open_session demo_db))
           @ [planned_row demo_texts (ms_seq (working (open_session demo_db)))
                (demo_user 3 103 None) ''welcome'' (mk_datetime 2025 11 1 10 0 + timedelta 0 1),
              planned_row demo_texts (Suc (ms_seq (working (open_session demo_db))))
                (demo_user 3 103 None) ''reminder'' (mk_datetime 2025 11 1 10 0 + timedelta 2 0)]
   \<and> snd (schedule_lead_magnet_messages demo_json accepts_all demo_texts
         (mk_datetime 2025 11 1 10 0) (open_session demo_db) (demo_user 3 103 None))
       = (Inr (), [Log_info])
   \<and> mk_datetime 2025 11 1 10 0 + timedelta 0 1 = mk_datetime 2025 11 1 10 1
   \<and> mk_datetime 2025 11 1 10 0 + timedelta 2 0 = mk_datetime 2025 11 3 10 0"
proof -
  have a1: "accepts_all (planned_row demo_texts (ms_seq (working (open_session demo_db)))
       (demo_user 3 103 None) ''welcome'' (mk_datetime 2025 11 1 10 0 + timedelta 0 1))"
    by (simp add: accepts_all_def)
  have a2: "accepts_all (planned_row demo_texts (Suc (ms_seq (working (open_session demo_db))))
       (demo_user 3 103 None) ''reminder'' (mk_datetime 2025 11 1 10 0 + timedelta 2 0))"
    by (simp add: accepts_all_def)
  have t: "mk_datetime 2025 11 1 10 0 + timedelta 0 1 = mk_datetime 2025 11 1 10 1"
    "mk_datetime 2025 11 1 10 0 + timedelta 2 0 = mk_datetime 2025 11 3 10 0"
    by (simp_all add: dt_defs timedelta_def)
  show ?thesis
    using lead_magnet_enrollment [OF a1 a2, of demo_json] a1 a2 t by blast
qed

text \<open>
  The claim as written fails: enrolling at 10:00 on 1 November 2025 stores entries due at
  10:01 that day and at 10:00 two days later, and none due at 10:00 of the day of
  enrollment. (An entry planned at offset zero would not pass the guard.)
\<close>

theorem enrollment_not_due_at_enrollment_time:
  "map ms_send_time (message_schedule (committed (fst (schedule_lead_magnet_messages demo_json
       accepts_all demo_texts (mk_datetime 2025 11 1 10 0) (open_session demo_db)
       (demo_user 3 103 None)))))
     = [mk_datetime 2025 11 5 8 30, mk_datetime 2025 11 7 8 30,
        mk_datetime 2025 11 1 10 1, mk_datetime 2025 11 3 10 0]
   \<and> mk_datetime 2025 11 1 10 1 \<noteq> mk_datetime 2025 11 1 10 0
   \<and> map ms_send_time (message_schedule demo_db)
     = [mk_datetime 2025 11 5 8 30, mk_datetime 2025 11 7 8 30]"
  by code_simp




section \<open>Registration\<close>

lemma add_user_existing:
  assumes "filter (\<lambda>u. u_user_id u = user_id) (users (working s)) = [u]"
  shows "add_user reg_now s user_id username first_name last_name phone lead_source_id
           = (s, Inr u)"
  by (simp add: add_user_def assms)

lemma add_user_again:
  assumes "add_user reg_now s user_id username first_name last_name phone lead_source_id
             = (s1, Inr u1)"
  shows "filter (\<lambda>u. u_user_id u = user_id) (users (working s1)) = [u1]"
proof (cases "filter (\<lambda>u. u_user_id u = user_id) (users (working s))")
  case Nil
  then show ?thesis
    using assms by (auto simp: add_user_def Let_def commit_def execute_def insert_user_def)
next
  case (Cons a rest)
  show ?thesis
  proof (cases rest)
    case Nil
    then show ?thesis
      using assms Cons by (auto simp: add_user_def)
  next
    case (Cons b more)
    then show ?thesis
      using assms \<open>filter (\<lambda>u. u_user_id u = user_id) (users (working s)) = a # rest\<close>
      by (simp add: add_user_def)
  qed
qed

text \<open>
  Claim C10. When a row with the given \<open>user_id\<close> exists (the column is unique),
  \<open>add_user\<close> returns that row and leaves the session, hence every stored row, as it was,
  whatever the other arguments are. A second call with the same \<open>user_id\<close> after a
  call that returned a row returns the same row and changes nothing.
\<close>

theorem add_user_idempotent:
  "(u \<in> set (users (working s)) \<and> u_user_id u = user_id
      \<and> distinct (map u_user_id (users (working s)))
     \<longrightarrow> add_user reg_now s user_id username first_name last_name phone lead_source_id
           = (s, Inr u))
   \<and> (add_user reg_now s user_id username first_name last_name phone lead_source_id
         = (s', Inr u')
     \<longrightarrow> add_user reg_now' s' user_id username' first_name' last_name' phone' lead_source_id'
           = (s', Inr u'))"
proof (intro conjI impI)
  assume a: "u \<in> set (users (working s)) \<and> u_user_id u = user_id
      \<and> distinct (map u_user_id (users (working s)))"
  then have "filter (\<lambda>v. u_user_id v = u_user_id u) (users (working s)) = [u]"
    by (intro filter_key_unique) simp_all
  then show "add_user reg_now s user_id username first_name last_name phone lead_source_id
           = (s, Inr u)"
    using a by (intro add_user_existing) simp
next
  assume "add_user reg_now s user_id username first_name last_name phone lead_source_id
         = (s', Inr u')"
  then show "add_user reg_now' s' user_id username' first_name' last_name' phone'
      lead_source_id' = (s', Inr u')"
    by (intro add_user_existing add_user_again)
qed

theorem add_user_idempotent_witness:
  "demo_user 1 101 (Some 1) \<in> set (users (working (open_session demo_db)))
   \<and> u_user_id (demo_user 1 101 (Some 1)) = 101
   \<and> distinct (map u_user_id (users (working (open_session demo_db))))
   \<and> add_user (mk_datetime 2025 11 6 12 0) (open_session demo_db) 101 (Some ''renamed'')
        (Some ''A'') None (Some ''+77000000000'') (Some 2)
       = (open_session demo_db, Inr (demo_user 1 101 (Some 1)))
   \<and> snd (add_user (mk_datetime 2025 11 6 12 0) (open_session demo_db) 104 (Some ''dan'')
        None None None None)
       = Inr ((demo_user 4 104 None)
               \<lparr>u_username := Some ''dan'', u_registered_at := mk_datetime 2025 11 6 12 0\<rparr>)
   \<and> map u_user_id (users (working (fst (add_user (mk_datetime 2025 11 6 12 0)
        (open_session demo_db) 104 (Some ''dan'') None None None None))))
       = [101, 102, 103, 104]
   \<and> add_user (mk_datetime 2025 11 6 12 5)
        (fst (add_user (mk_datetime 2025 11 6 12 0) (open_session demo_db) 104 (Some ''dan'')
           None None None None))
        104 (Some ''daniel'') (Some ''D'') None None (Some 1)
       = (fst (add_user (mk_datetime 2025 11 6 12 0) (open_session demo_db) 104 (Some ''dan'')
           None None None None),
          Inr ((demo_user 4 104 None)
               \<lparr>u_username := Some ''dan'', u_registered_at := mk_datetime 2025 11 6 12 0\<rparr>))"
proof -
  let ?s = "open_session demo_db"
  let ?u = "demo_user 1 101 (Some 1)"
  let ?first = "add_user (mk_datetime 2025 11 6 12 0) ?s 104 (Some ''dan'') None None None None"
  let ?new = "(demo_user 4 104 None)
               \<lparr>u_username := Some ''dan'', u_registered_at := mk_datetime 2025 11 6 12 0\<rparr>"
  have h1: "?u \<in> set (users (working ?s))"
    by (simp add: open_session_def demo_db_def)
  have h2: "u_user_id ?u = 101"
    by (simp add: demo_user_def)
  have h3: "distinct (map u_user_id (users (working ?s)))"
    by (simp add: open_session_def demo_db_def demo_user_def)
  have e: "snd ?first = Inr ?new"
    by code_simp
  have ids: "map u_user_id (users (working (fst ?first))) = [101, 102, 103, 104]"
    by code_simp
  have f: "?first = (fst ?first, Inr ?new)"
    using e by (metis prod.collapse)
  have one: "add_user (mk_datetime 2025 11 6 12 0) ?s 101 (Some ''renamed'')
        (Some ''A'') None (Some ''+77000000000'') (Some 2) = (?s, Inr ?u)"
    using add_user_idempotent [where u = ?u and s = ?s and user_id = 101] h1 h2 h3
    by blast
  have two: "add_user (mk_datetime 2025 11 6 12 5) (fst ?first)
        104 (Some ''daniel'') (Some ''D'') None None (Some 1) = (fst ?first, Inr ?new)"
    using add_user_idempotent [where s = ?s and user_id = 104 and s' = "fst ?first"
        and u' = ?new and reg_now = "mk_datetime 2025 11 6 12 0"
        and username = "Some ''dan''" and first_name = None and last_name = None
        and phone = None and lead_source_id = None] f
    by blast
  show ?thesis
    using h1 h2 h3 one e ids two by blast
qed

end
